theory Spec2Isabelle
  imports Main
begin

section \<open>Request filters of govcr (request.go)\<close>

text \<open>
  The Go file declares the value type \<open>Request\<close>, the function type \<open>RequestFilter\<close>,
  the slice type \<open>RequestFilters\<close>, two guards (\<open>OnMethod\<close>, \<open>OnPath\<close>), two header
  filters (\<open>RequestAddHeaderValue\<close>, \<open>RequestDeleteHeaderKeys\<close>) and the chain operations
  \<open>Append\<close>, \<open>Prepend\<close> and \<open>combined\<close>.

  Go passes a \<open>Request\<close> by value, but its \<open>Header\<close> field is a map and a chain is a
  slice: both are references into memory that the callee shares with the caller. The model
  therefore has two explicit stores, one of header maps (with the string arrays behind
  their values) and one of filter arrays, and every operation that writes through a
  reference returns the updated store. A panic is the left summand of the result.
\<close>

subsection \<open>Data model\<close>

type_synonym addr = nat

text \<open>\<open>http.Header\<close> is \<open>map[string][]string\<close>. A map is a reference, and so is each
  of its values: a \<open>[]string\<close> is a slice header (backing array, offset of the first
  element, length, capacity) over an array of strings that other slices, under other keys
  or in other maps, may share. The header store holds the contents of every map, by
  address, and the list of the allocated string arrays, an address being an index in it.\<close>

record StringSlice =
  sarr :: addr
  soff :: nat
  slen :: nat
  scap :: nat

type_synonym header_map = "string \<rightharpoonup> StringSlice"

record hstore =
  maps :: "addr \<Rightarrow> header_map"
  strs :: "string list list"

definition nil_StringSlice :: StringSlice where
  "nil_StringSlice = \<lparr>sarr = 0, soff = 0, slen = 0, scap = 0\<rparr>"

definition strings_wf :: "string list list \<Rightarrow> StringSlice \<Rightarrow> bool" where
  "strings_wf ss w =
     (slen w \<le> scap w \<and> (scap w = 0 \<or> (sarr w < length ss \<and> soff w + scap w \<le> length (ss ! sarr w))))"

definition strings_of :: "string list list \<Rightarrow> StringSlice \<Rightarrow> string list" where
  "strings_of ss w = take (slen w) (drop (soff w) (ss ! sarr w))"

text \<open>The index expression \<open>h[key]\<close> on a map: the nil slice for an absent key.\<close>

definition map_index :: "header_map \<Rightarrow> string \<Rightarrow> StringSlice" where
  "map_index h key = (case h key of None \<Rightarrow> nil_StringSlice | Some w \<Rightarrow> w)"

text \<open>\<open>url.URL\<close> and \<open>url.Userinfo\<close> of the standard library, field by field.\<close>

record Userinfo =
  username :: string
  password :: string
  passwordSet :: bool

record URL =
  Scheme :: string
  Opaque :: string
  User :: "Userinfo option"
  Host :: string
  Path :: string
  RawPath :: string
  ForceQuery :: bool
  RawQuery :: string
  Fragment :: string

text \<open>The struct \<open>Request\<close>. \<open>Header\<close> is \<open>None\<close> for the nil map and otherwise the
  address of the map in the header store. \<open>Body\<close> is kept by content: no function of the
  file writes through it.\<close>

record Request =
  Header :: "addr option"
  Body :: string
  Method :: string
  URL :: URL

datatype panic =
    NilMapAssignment
  | NilFuncCall
  | RegexpCompileError string
  | FilterPanic string

text \<open>\<open>type RequestFilter func(req Request) Request\<close>. A Go func value may be nil
  (\<open>None\<close>); calling it panics. A non-nil filter receives the request and the header
  store and either panics or returns a request and the store it leaves behind.\<close>

type_synonym filter_fn = "Request \<Rightarrow> hstore \<Rightarrow> panic + Request \<times> hstore"
type_synonym RequestFilter = "filter_fn option"

definition call :: "RequestFilter \<Rightarrow> filter_fn" where
  "call f req s = (case f of None \<Rightarrow> Inl NilFuncCall | Some g \<Rightarrow> g req s)"




subsection \<open>The header operations of net/http used by the filters\<close>

text \<open>\<open>textproto.CanonicalMIMEHeaderKey\<close> of the standard library: a key made of token
  bytes only gets its first letter and every letter after a hyphen in upper case and all
  other letters in lower case; a key with any other byte is returned as it is.\<close>

definition validHeaderFieldByte :: "char \<Rightarrow> bool" where
  "validHeaderFieldByte c =
     (let n = (of_char c :: nat) in
        n = 33 \<or> (35 \<le> n \<and> n \<le> 39) \<or> n = 42 \<or> n = 43 \<or> n = 45 \<or> n = 46
        \<or> (48 \<le> n \<and> n \<le> 57) \<or> (65 \<le> n \<and> n \<le> 90)
        \<or> (94 \<le> n \<and> n \<le> 122) \<or> n = 124 \<or> n = 126)"

definition canon_byte :: "bool \<Rightarrow> char \<Rightarrow> char" where
  "canon_byte upper c =
     (let n = (of_char c :: nat) in
        if upper \<and> 97 \<le> n \<and> n \<le> 122 then char_of (n - 32)
        else if \<not> upper \<and> 65 \<le> n \<and> n \<le> 90 then char_of (n + 32)
        else c)"

fun canon_loop :: "bool \<Rightarrow> string \<Rightarrow> string" where
  "canon_loop upper [] = []"
| "canon_loop upper (c # cs) =
     (let c' = canon_byte upper c in c' # canon_loop (c' = CHR ''-'') cs)"

definition CanonicalMIMEHeaderKey :: "string \<Rightarrow> string" where
  "CanonicalMIMEHeaderKey s =
     (if list_all validHeaderFieldByte s then canon_loop True s else s)"

text \<open>The built-in \<open>append(w, val)\<close> on a \<open>[]string\<close>. With spare capacity the string is
  written in place into the cell behind the slice, and the result shares the backing array;
  without, a larger array is allocated and filled. How much larger is up to the runtime:
  \<open>grow\<close> gives the spare capacity.\<close>

definition append_string ::
  "(nat \<Rightarrow> nat \<Rightarrow> nat) \<Rightarrow> string list list \<Rightarrow> StringSlice \<Rightarrow> string \<Rightarrow>
   StringSlice \<times> string list list" where
  "append_string grow ss w val =
     (let n = slen w + 1 in
      if n \<le> scap w then
        (w\<lparr>slen := n\<rparr>, ss[sarr w := (ss ! sarr w)[soff w + slen w := val]])
      else
        (let c = n + grow (scap w) n
         in (\<lparr>sarr = length ss, soff = 0, slen = n, scap = c\<rparr>,
             ss @ [strings_of ss w @ [val] @ replicate (c - n) []])))"

text \<open>\<open>Header.Add\<close>: \<open>key = CanonicalMIMEHeaderKey(key); h[key] = append(h[key], value)\<close>,
  on the non-nil map at address \<open>a\<close>.\<close>

definition Header_Add ::
  "(nat \<Rightarrow> nat \<Rightarrow> nat) \<Rightarrow> hstore \<Rightarrow> addr \<Rightarrow> string \<Rightarrow> string \<Rightarrow> hstore" where
  "Header_Add grow s a key val =
     (let k = CanonicalMIMEHeaderKey key;
          (w, ss) = append_string grow (strs s) (map_index (maps s a) k) val
      in s\<lparr>maps := (maps s)(a := (maps s a)(k \<mapsto> w)), strs := ss\<rparr>)"

text \<open>\<open>Header.Del\<close>: \<open>delete(h, CanonicalMIMEHeaderKey(key))\<close>.\<close>

definition Header_Del :: "hstore \<Rightarrow> addr \<Rightarrow> string \<Rightarrow> hstore" where
  "Header_Del s a key = s\<lparr>maps := (maps s)(a := (maps s a)(CanonicalMIMEHeaderKey key := None))\<rparr>"

text \<open>The strings that \<open>h[key]\<close> reads for the key exactly as it is spelt, and
  \<open>Header.Values\<close>, which is \<open>h[CanonicalMIMEHeaderKey(key)]\<close>: the ordered values stored
  for a key, looked up without regard to the case of the key.\<close>

definition Header_index :: "hstore \<Rightarrow> addr \<Rightarrow> string \<Rightarrow> string list" where
  "Header_index s a key = strings_of (strs s) (map_index (maps s a) key)"

definition Header_Values :: "hstore \<Rightarrow> addr \<Rightarrow> string \<Rightarrow> string list" where
  "Header_Values s a key = Header_index s a (CanonicalMIMEHeaderKey key)"

subsection \<open>Guards\<close>

definition OnMethod :: "RequestFilter \<Rightarrow> string \<Rightarrow> RequestFilter" where
  "OnMethod r method =
     Some (\<lambda>req s. if Method req \<noteq> method then Inr (req, s) else call r req s)"

text \<open>\<open>OnPath\<close> uses \<open>regexp.MustCompile\<close>, \<open>Regexp.MatchString\<close> and \<open>URL.String\<close> of the
  standard library, which are parameters here: \<open>regexp_Compile p\<close> is \<open>None\<close> when the
  pattern does not compile (\<open>MustCompile\<close> then panics) and otherwise the compiled
  expression, represented by its \<open>MatchString\<close> predicate; \<open>URL_String\<close> renders a URL.\<close>

definition OnPath ::
  "(string \<Rightarrow> (string \<Rightarrow> bool) option) \<Rightarrow> (URL \<Rightarrow> string) \<Rightarrow>
   RequestFilter \<Rightarrow> string \<Rightarrow> panic + RequestFilter" where
  "OnPath regexp_Compile URL_String r pathRegEx =
     (let pathRegEx = (if pathRegEx = [] then ''.*'' else pathRegEx) in
      case regexp_Compile pathRegEx of
        None \<Rightarrow> Inl (RegexpCompileError pathRegEx)
      | Some re \<Rightarrow>
          Inr (Some (\<lambda>req s.
            if \<not> re (URL_String (URL req)) then Inr (req, s) else call r req s)))"

subsection \<open>Header filters\<close>

text \<open>\<open>req.Header.Add(key, value); return req\<close>. The growth policy of the runtime's
  \<open>append\<close> is the parameter \<open>grow\<close>.\<close>

definition RequestAddHeaderValue ::
  "(nat \<Rightarrow> nat \<Rightarrow> nat) \<Rightarrow> string \<Rightarrow> string \<Rightarrow> RequestFilter" where
  "RequestAddHeaderValue grow key val =
     Some (\<lambda>req s.
       case Header req of
         None \<Rightarrow> Inl NilMapAssignment
       | Some a \<Rightarrow> Inr (req, Header_Add grow s a key val))"

text \<open>The loop \<open>for _, key := range keys { req.Header.Del(key) }\<close>; deleting from the nil
  map does nothing.\<close>

fun del_keys :: "string list \<Rightarrow> Request \<Rightarrow> hstore \<Rightarrow> hstore" where
  "del_keys [] req s = s"
| "del_keys (key # keys) req s =
     del_keys keys req
       (case Header req of None \<Rightarrow> s | Some a \<Rightarrow> Header_Del s a key)"

definition RequestDeleteHeaderKeys :: "string list \<Rightarrow> RequestFilter" where
  "RequestDeleteHeaderKeys keys = Some (\<lambda>req s. Inr (req, del_keys keys req s))"

subsection \<open>Filter chains as slices\<close>

text \<open>A \<open>RequestFilters\<close> value is a slice header: the backing array, the offset of its
  first element in that array, its length and its capacity. The filter store is the list
  of allocated arrays, an address being an index in it; allocation adds an array at the
  end. The nil slice is any header of capacity 0.\<close>

record RequestFilters =
  arr :: addr
  off :: nat
  len :: nat
  cap :: nat

type_synonym fstore = "RequestFilter list list"

definition nil_RequestFilters :: RequestFilters where
  "nil_RequestFilters = \<lparr>arr = 0, off = 0, len = 0, cap = 0\<rparr>"

definition slice_wf :: "fstore \<Rightarrow> RequestFilters \<Rightarrow> bool" where
  "slice_wf st r =
     (len r \<le> cap r \<and> (cap r = 0 \<or> (arr r < length st \<and> off r + cap r \<le> length (st ! arr r))))"

definition slice_elems :: "fstore \<Rightarrow> RequestFilters \<Rightarrow> RequestFilter list" where
  "slice_elems st r = take (len r) (drop (off r) (st ! arr r))"

definition write_at :: "'a list \<Rightarrow> nat \<Rightarrow> 'a list \<Rightarrow> 'a list" where
  "write_at xs i ys = take i xs @ ys @ drop (i + length ys) xs"

text \<open>The built-in \<open>append(r, filters...)\<close>. With room in the backing array the new
  elements are written in place behind the slice, and the result shares the array; without
  room a larger array is allocated and filled. How much larger is up to the runtime:
  \<open>grow\<close> gives the spare capacity. The variadic argument is taken by content.\<close>

definition append_slice ::
  "(nat \<Rightarrow> nat \<Rightarrow> nat) \<Rightarrow> fstore \<Rightarrow> RequestFilters \<Rightarrow> RequestFilter list \<Rightarrow>
   RequestFilters \<times> fstore" where
  "append_slice grow st r filters =
     (let n = len r + length filters in
      if filters = [] then (r, st)
      else if n \<le> cap r then
        (r\<lparr>len := n\<rparr>, st[arr r := write_at (st ! arr r) (off r + len r) filters])
      else
        (let c = n + grow (cap r) n
         in (\<lparr>arr = length st, off = 0, len = n, cap = c\<rparr>,
             st @ [slice_elems st r @ filters @ replicate (c - n) None])))"

text \<open>\<open>make(RequestFilters, 0, c)\<close>.\<close>

definition make_slice :: "fstore \<Rightarrow> nat \<Rightarrow> RequestFilters \<times> fstore" where
  "make_slice st c = (\<lparr>arr = length st, off = 0, len = 0, cap = c\<rparr>, st @ [replicate c None])"

definition Append ::
  "(nat \<Rightarrow> nat \<Rightarrow> nat) \<Rightarrow> fstore \<Rightarrow> RequestFilters \<Rightarrow> RequestFilter list \<Rightarrow>
   RequestFilters \<times> fstore" where
  "Append grow st r filters = append_slice grow st r filters"

definition Prepend ::
  "(nat \<Rightarrow> nat \<Rightarrow> nat) \<Rightarrow> fstore \<Rightarrow> RequestFilters \<Rightarrow> RequestFilter list \<Rightarrow>
   RequestFilters \<times> fstore" where
  "Prepend grow st r filters =
     (let (dst, st1) = make_slice st (length filters + len r);
          (dst, st2) = append_slice grow st1 dst filters
      in append_slice grow st2 dst (slice_elems st2 r))"

text \<open>The loop of \<open>combined\<close>, \<open>for _, filter := range r { req = filter(req) }\<close>, over
  the elements \<open>a\<close> of the chain, with the index \<open>i\<close> of the next element. A panic of a
  filter ends the loop.\<close>

function range_loop :: "RequestFilter list \<Rightarrow> nat \<Rightarrow> filter_fn" where
  "range_loop a i req s =
     (if i < length a then
        (case call (a ! i) req s of
           Inl e \<Rightarrow> Inl e
         | Inr (req', s') \<Rightarrow> range_loop a (Suc i) req' s')
      else Inr (req, s))"
  by pat_completeness auto
termination
  by (relation "measure (\<lambda>(a, i, req, s). length a - i)") auto

declare range_loop.simps [simp del]

text \<open>\<open>combined\<close> returns a closure over the slice header; the closure reads the
  elements when it is called, in the filter store \<open>st\<close> of that moment.\<close>

definition combined :: "fstore \<Rightarrow> RequestFilters \<Rightarrow> RequestFilter" where
  "combined st r = Some (range_loop (slice_elems st r) 0)"

subsection \<open>Concrete values used in the examples\<close>

text \<open>The zero values \<open>url.URL{}\<close> and \<open>Request{}\<close>, and the header store in which every
  map is empty and no string array is allocated.\<close>

definition URL_zero :: URL where
  "URL_zero = \<lparr>Scheme = [], Opaque = [], User = None, Host = [], Path = [], RawPath = [],
                ForceQuery = False, RawQuery = [], Fragment = []\<rparr>"

definition Request_zero :: Request where
  "Request_zero = \<lparr>Header = None, Body = [], Method = [], URL = URL_zero\<rparr>"

definition empty_headers :: hstore where
  "empty_headers = \<lparr>maps = (\<lambda>a. Map.empty), strs = []\<rparr>"

text \<open>A filter written by a user of the library: it forces the method to PUT.\<close>

definition force_PUT :: RequestFilter where
  "force_PUT = Some (\<lambda>req s. Inr (req\<lparr>Method := ''PUT''\<rparr>, s))"

text \<open>\<open>strings.Contains(s, p)\<close>.\<close>

fun has_infix :: "string \<Rightarrow> string \<Rightarrow> bool" where
  "has_infix [] p = (p = [])"
| "has_infix (c # cs) p = (take (length p) (c # cs) = p \<or> has_infix cs p)"

text \<open>An instance of the two library parameters of \<open>OnPath\<close>, for evaluating it on
  concrete inputs. It agrees with Go on the inputs of the examples and claims nothing
  elsewhere: the pattern \<open>.*\<close> matches every string, a pattern of letters, digits and
  slashes matches the strings that contain it, any other pattern is taken not to compile
  (as \<open>(\<close> does not); a URL with a scheme, a host and a path that needs no escaping, and
  nothing else, renders as \<open>scheme://host/path\<close>.\<close>

definition literal_byte :: "char \<Rightarrow> bool" where
  "literal_byte c =
     (let n = (of_char c :: nat) in
        (47 \<le> n \<and> n \<le> 57) \<or> (65 \<le> n \<and> n \<le> 90) \<or> (97 \<le> n \<and> n \<le> 122))"

definition example_Compile :: "string \<Rightarrow> (string \<Rightarrow> bool) option" where
  "example_Compile p =
     (if p = ''.*'' then Some (\<lambda>s. True)
      else if list_all literal_byte p then Some (\<lambda>s. has_infix s p)
      else None)"

definition example_URL_String :: "URL \<Rightarrow> string" where
  "example_URL_String u = Scheme u @ ''://'' @ Host u @ Path u"

text \<open>The runtime's growth policy in the examples: no spare capacity.\<close>

definition no_spare :: "nat \<Rightarrow> nat \<Rightarrow> nat" where
  "no_spare c n = 0"

subsection \<open>The pipeline as the specification words it\<close>

text \<open>\<open>apply(filters, value)\<close>: the value is folded through each filter in sequence
  order, each filter seeing the output of the one before it.\<close>

fun apply_in_order :: "RequestFilter list \<Rightarrow> filter_fn" where
  "apply_in_order [] x s = Inr (x, s)"
| "apply_in_order (f # fs) x s =
     (case call f x s of Inl e \<Rightarrow> Inl e | Inr (y, t) \<Rightarrow> apply_in_order fs y t)"

text \<open>A filter that only computes a new request from the old one.\<close>

definition pure_filter :: "(Request \<Rightarrow> Request) \<Rightarrow> RequestFilter" where
  "pure_filter g = Some (\<lambda>req s. Inr (g req, s))"

section \<open>Auxiliary facts\<close>

subsection \<open>Writing into an array\<close>

lemma drop_write_at:
  "i + length ys \<le> length xs \<Longrightarrow> a \<le> i \<Longrightarrow>
     drop a (write_at xs i ys) = take (i - a) (drop a xs) @ ys @ drop (i + length ys) xs"
  by (simp add: write_at_def drop_take)

lemma take_drop_write_at:
  assumes "i + length ys \<le> length xs" and "a \<le> i"
  shows "take (i - a + length ys) (drop a (write_at xs i ys)) = take (i - a) (drop a xs) @ ys"
proof -
  have l: "length (take (i - a) (drop a xs)) = i - a" using assms by simp
  show ?thesis
    unfolding drop_write_at [OF assms] using l by simp
qed

lemma take_drop_write_at_before:
  assumes "i + length ys \<le> length xs" and "a \<le> i"
  shows "take (i - a) (drop a (write_at xs i ys)) = take (i - a) (drop a xs)"
proof -
  have l: "length (take (i - a) (drop a xs)) = i - a" using assms by simp
  show ?thesis
    unfolding drop_write_at [OF assms] using l by simp
qed

lemma length_write_at: "i + length ys \<le> length xs \<Longrightarrow> length (write_at xs i ys) = length xs"
  by (simp add: write_at_def)

subsection \<open>Slices\<close>

lemma length_slice_elems: "slice_wf st r \<Longrightarrow> length (slice_elems st r) = len r"
  by (auto simp add: slice_wf_def slice_elems_def)

lemma slice_elems_extend: "slice_wf st r \<Longrightarrow> slice_elems (st @ ext) r = slice_elems st r"
  by (auto simp add: slice_wf_def slice_elems_def nth_append)

lemma slice_wf_extend: "slice_wf st r \<Longrightarrow> slice_wf (st @ ext) r"
  by (auto simp add: slice_wf_def nth_append)

text \<open>What \<open>append\<close> guarantees for a well-formed slice, in place or after growing.\<close>

lemma append_slice_ok:
  assumes wf: "slice_wf st r" and ap: "append_slice grow st r fs = (r', st')"
  shows "slice_elems st' r' = slice_elems st r @ fs \<and> slice_elems st' r = slice_elems st r
         \<and> slice_wf st' r' \<and> slice_wf st' r"
proof (cases "fs = []")
  case True
  with ap wf show ?thesis by (simp add: append_slice_def)
next
  case False
  note ne = this
  show ?thesis
  proof (cases "len r + length fs \<le> cap r")
    case True
    with ne have c0: "cap r \<noteq> 0" by (cases fs) auto
    with wf have a: "arr r < length st" and b: "off r + cap r \<le> length (st ! arr r)"
      and l: "len r \<le> cap r"
      by (auto simp add: slice_wf_def)
    from ap ne True have r': "r' = r\<lparr>len := len r + length fs\<rparr>"
      and st': "st' = st[arr r := write_at (st ! arr r) (off r + len r) fs]"
      by (auto simp add: append_slice_def)
    have fit: "off r + len r + length fs \<le> length (st ! arr r)" using True b by simp
    have 1: "slice_elems st' r' = slice_elems st r @ fs"
      using take_drop_write_at [OF fit, of "off r"] a
      by (simp add: r' st' slice_elems_def)
    have 2: "slice_elems st' r = slice_elems st r"
      using take_drop_write_at_before [OF fit, of "off r"] a
      by (simp add: st' slice_elems_def)
    have 3: "slice_wf st' r'" "slice_wf st' r"
      using a b l True length_write_at [OF fit]
      by (simp_all add: slice_wf_def r' st')
    from 1 2 3 show ?thesis by simp
  next
    case False
    define n where "n = len r + length fs"
    define c where "c = n + grow (cap r) n"
    from ap ne False have r': "r' = \<lparr>arr = length st, off = 0, len = n, cap = c\<rparr>"
      and st': "st' = st @ [slice_elems st r @ fs @ replicate (c - n) None]"
      by (auto simp add: append_slice_def Let_def n_def c_def)
    have le: "length (slice_elems st r) = len r" by (rule length_slice_elems [OF wf])
    have "slice_elems st' r' = take n (slice_elems st r @ fs @ replicate (c - n) None)"
      by (simp add: r' st' slice_elems_def)
    also have "\<dots> = slice_elems st r @ fs"
      using le by (simp add: n_def)
    finally have 1: "slice_elems st' r' = slice_elems st r @ fs" .
    have 2: "slice_elems st' r = slice_elems st r"
      unfolding st' by (rule slice_elems_extend [OF wf])
    have 3: "slice_wf st' r'"
      by (simp add: r' st' slice_wf_def le n_def c_def)
    have 4: "slice_wf st' r"
      unfolding st' by (rule slice_wf_extend [OF wf])
    from 1 2 3 4 show ?thesis by simp
  qed
qed

text \<open>\<open>Prepend\<close> computed: one new array, exactly full, behind the arrays that were
  there.\<close>

lemma Prepend_result:
  assumes wf: "slice_wf st r"
  shows "Prepend grow st r fs =
           (\<lparr>arr = length st, off = 0, len = length fs + len r, cap = length fs + len r\<rparr>,
            st @ [fs @ slice_elems st r])"
proof -
  define m where "m = length fs + len r"
  define dst where "dst = \<lparr>arr = length st, off = 0, len = 0, cap = m\<rparr>"
  define st1 where "st1 = st @ [replicate m (None :: RequestFilter)]"
  have mk: "make_slice st (length fs + len r) = (dst, st1)"
    by (simp add: make_slice_def dst_def st1_def m_def)
  define dst2 where "dst2 = dst\<lparr>len := length fs\<rparr>"
  define st2 where "st2 = st @ [fs @ replicate (len r) (None :: RequestFilter)]"
  have a1: "append_slice grow st1 dst fs = (dst2, st2)"
  proof (cases "fs = []")
    case True
    then show ?thesis by (simp add: append_slice_def dst2_def st2_def dst_def st1_def m_def)
  next
    case False
    then show ?thesis
      by (simp add: append_slice_def dst2_def st2_def dst_def st1_def m_def write_at_def Let_def)
  qed
  have e2: "slice_elems st2 r = slice_elems st r"
    unfolding st2_def by (rule slice_elems_extend [OF wf])
  have le: "length (slice_elems st r) = len r" by (rule length_slice_elems [OF wf])
  have a2: "append_slice grow st2 dst2 (slice_elems st r) =
        (\<lparr>arr = length st, off = 0, len = m, cap = m\<rparr>, st @ [fs @ slice_elems st r])"
  proof (cases "slice_elems st r = []")
    case True
    with le have "len r = 0" by simp
    with True show ?thesis by (simp add: append_slice_def dst2_def st2_def dst_def m_def)
  next
    case False
    then show ?thesis
      by (simp add: append_slice_def dst2_def st2_def dst_def m_def write_at_def le Let_def)
  qed
  show ?thesis
    by (simp add: Prepend_def mk a1 e2 a2 m_def)
qed

subsection \<open>The loops\<close>

lemma range_loop_drop: "range_loop a i x s = apply_in_order (drop i a) x s"
proof (induction a i x s rule: range_loop.induct)
  case (1 a i req s)
  show ?case
  proof (cases "i < length a")
    case True
    then have d: "drop i a = a ! i # drop (Suc i) a" by (simp add: Cons_nth_drop_Suc)
    show ?thesis using True 1 by (subst range_loop.simps) (simp add: d split: sum.splits)
  next
    case False
    then show ?thesis by (subst range_loop.simps) simp
  qed
qed

lemma apply_in_order_pure:
  "apply_in_order (map pure_filter gs) x s = Inr (fold (\<lambda>g y. g y) gs x, s)"
  by (induction gs arbitrary: x) (simp_all add: pure_filter_def call_def)


subsection \<open>Appending to a value slice\<close>

lemma length_strings_of: "strings_wf ss w \<Longrightarrow> length (strings_of ss w) = slen w"
  by (auto simp add: strings_wf_def strings_of_def)

lemma take_drop_update_behind:
  assumes "a + n < length xs"
  shows "take (Suc n) (drop a (xs[a + n := y])) = take n (drop a xs) @ [y]"
proof -
  have l: "n < length (drop a xs)" using assms by simp
  have "drop a (xs[a + n := y]) = (drop a xs)[n := y]" by (simp add: drop_update_swap)
  then show ?thesis using l by (simp add: take_Suc_conv_app_nth)
qed

text \<open>What \<open>append\<close> does to a well-formed value slice: the result reads as the old
  strings followed by the new one, and the arrays change either in the one cell behind the
  old slice or by a new array at the end.\<close>

lemma append_string_ok:
  assumes wf: "strings_wf ss w" and ap: "append_string grow ss w val = (w', ss')"
  shows "strings_of ss' w' = strings_of ss w @ [val] \<and> strings_wf ss' w'
         \<and> (ss' = ss[sarr w := (ss ! sarr w)[soff w + slen w := val]] \<or> (\<exists>new. ss' = ss @ [new]))"
proof (cases "slen w + 1 \<le> scap w")
  case True
  then have c0: "scap w \<noteq> 0" by simp
  with wf have a: "sarr w < length ss" and b: "soff w + scap w \<le> length (ss ! sarr w)"
    by (auto simp add: strings_wf_def)
  from ap True have w': "w' = w\<lparr>slen := slen w + 1\<rparr>"
    and ss': "ss' = ss[sarr w := (ss ! sarr w)[soff w + slen w := val]]"
    by (auto simp add: append_string_def)
  have fit: "soff w + slen w < length (ss ! sarr w)" using True b by simp
  have 1: "strings_of ss' w' = strings_of ss w @ [val]"
    using take_drop_update_behind [OF fit] a by (simp add: w' ss' strings_of_def)
  have 2: "strings_wf ss' w'"
    using a b True by (simp add: strings_wf_def w' ss')
  from 1 2 ss' show ?thesis by simp
next
  case False
  define n where "n = slen w + 1"
  define c where "c = n + grow (scap w) n"
  from ap False have w': "w' = \<lparr>sarr = length ss, soff = 0, slen = n, scap = c\<rparr>"
    and ss': "ss' = ss @ [strings_of ss w @ [val] @ replicate (c - n) []]"
    by (auto simp add: append_string_def Let_def n_def c_def)
  have le: "length (strings_of ss w) = slen w" by (rule length_strings_of [OF wf])
  have "strings_of ss' w' = take n (strings_of ss w @ [val] @ replicate (c - n) [])"
    by (simp add: w' ss' strings_of_def)
  also have "\<dots> = strings_of ss w @ [val]"
    using le by (simp add: n_def)
  finally have 1: "strings_of ss' w' = strings_of ss w @ [val]" .
  have 2: "strings_wf ss' w'"
    by (simp add: w' ss' strings_wf_def le n_def c_def)
  from 1 2 ss' show ?thesis by blast
qed

text \<open>On a request whose header is the nil map, \<open>Header.Add\<close> assigns to an entry of a
  nil map, and the filter panics.\<close>

lemma RequestAddHeaderValue_nil_header:
  "Header x = None \<Longrightarrow> call (RequestAddHeaderValue grow k v) x s = Inl NilMapAssignment"
  by (simp add: call_def RequestAddHeaderValue_def)

section \<open>The guards\<close>

text \<open>
  C3. For every filter \<open>f\<close>, method \<open>m\<close> and request \<open>x\<close>, the filter \<open>f.OnMethod(m)\<close>
  returns \<open>x\<close> as it is, and touches nothing, when the method of \<open>x\<close> differs from \<open>m\<close>;
  when it equals \<open>m\<close> the guarded filter does exactly what \<open>f\<close> does on \<open>x\<close>, panics of
  \<open>f\<close> included.
\<close>

theorem OnMethod_guard:
  "(Method x \<noteq> m \<longrightarrow> call (OnMethod f m) x s = Inr (x, s))
   \<and> (Method x = m \<longrightarrow> call (OnMethod f m) x s = call f x s)"
  by (simp add: OnMethod_def call_def)

theorem OnMethod_guard_witness:
  "Method (Request_zero\<lparr>Method := ''GET''\<rparr>) \<noteq> ''POST''
   \<and> call (OnMethod force_PUT ''POST'') (Request_zero\<lparr>Method := ''GET''\<rparr>) empty_headers
       = Inr (Request_zero\<lparr>Method := ''GET''\<rparr>, empty_headers)
   \<and> Method (Request_zero\<lparr>Method := ''POST''\<rparr>) = ''POST''
   \<and> call (OnMethod force_PUT ''POST'') (Request_zero\<lparr>Method := ''POST''\<rparr>) empty_headers
       = call force_PUT (Request_zero\<lparr>Method := ''POST''\<rparr>) empty_headers
   \<and> call force_PUT (Request_zero\<lparr>Method := ''POST''\<rparr>) empty_headers
       = Inr (Request_zero\<lparr>Method := ''PUT''\<rparr>, empty_headers)"
  using OnMethod_guard [of "Request_zero\<lparr>Method := ''GET''\<rparr>" "''POST''" force_PUT empty_headers]
    OnMethod_guard [of "Request_zero\<lparr>Method := ''POST''\<rparr>" "''POST''" force_PUT empty_headers]
  by (simp add: force_PUT_def call_def)

text \<open>
  C2, as the code has it. For every filter \<open>f\<close>, every non-empty pattern \<open>p\<close> that compiles
  and every request \<open>x\<close>, the filter \<open>f.OnPath(p)\<close> does exactly what \<open>f\<close> does on \<open>x\<close> when
  the pattern matches the string form of the whole URL of \<open>x\<close> (\<open>req.URL.String()\<close>: scheme,
  host, path, query and fragment), and returns \<open>x\<close> as it is when the pattern does not match
  that string. The path alone is never what is matched.
\<close>

theorem OnPath_guard_url_string:
  "p \<noteq> [] \<Longrightarrow> regexp_Compile p = Some re \<Longrightarrow>
     \<exists>g. OnPath regexp_Compile URL_String f p = Inr g
       \<and> (\<forall>x s. call g x s = (if re (URL_String (URL x)) then call f x s else Inr (x, s)))"
  by (simp add: OnPath_def call_def)

theorem OnPath_guard_url_string_witness:
  "''/order/'' \<noteq> []
   \<and> example_Compile ''/order/'' = Some (\<lambda>u. has_infix u ''/order/'')
   \<and> (\<exists>g. OnPath example_Compile example_URL_String force_PUT ''/order/'' = Inr g
       \<and> (\<forall>x s. call g x s =
             (if has_infix (example_URL_String (URL x)) ''/order/'' then call force_PUT x s
              else Inr (x, s))))"
proof -
  have ne: "''/order/'' \<noteq> []" by simp
  have c: "example_Compile ''/order/'' = Some (\<lambda>u. has_infix u ''/order/'')"
    by (simp add: example_Compile_def literal_byte_def)
  show ?thesis
    using ne c
      OnPath_guard_url_string [where p = "''/order/''" and regexp_Compile = example_Compile
        and re = "\<lambda>u. has_infix u ''/order/''" and URL_String = example_URL_String
        and f = force_PUT]
    by simp
qed

text \<open>
  C2 as it is worded, with the path in place of the URL string, fails. The request is a
  GET of \<open>http://example.com/ping\<close> and the pattern is \<open>example\<close>: the pattern compiles, the
  path \<open>/ping\<close> does not match it, and yet the guarded filter applies \<open>force_PUT\<close> and returns
  a changed request, because the URL string contains \<open>example\<close> in its host.
\<close>

theorem OnPath_guard_path_counterexample:
  "example_Compile ''example'' \<noteq> None
   \<and> \<not> the (example_Compile ''example'')
          (Path (URL (Request_zero\<lparr>Method := ''GET'',
             URL := URL_zero\<lparr>Scheme := ''http'', Host := ''example.com'', Path := ''/ping''\<rparr>\<rparr>)))
   \<and> \<not> isl (OnPath example_Compile example_URL_String force_PUT ''example'')
   \<and> call (projr (OnPath example_Compile example_URL_String force_PUT ''example''))
        (Request_zero\<lparr>Method := ''GET'',
           URL := URL_zero\<lparr>Scheme := ''http'', Host := ''example.com'', Path := ''/ping''\<rparr>\<rparr>)
        empty_headers
      \<noteq> Inr (Request_zero\<lparr>Method := ''GET'',
           URL := URL_zero\<lparr>Scheme := ''http'', Host := ''example.com'', Path := ''/ping''\<rparr>\<rparr>,
         empty_headers)"
proof -
  let ?x = "Request_zero\<lparr>Method := ''GET'',
             URL := URL_zero\<lparr>Scheme := ''http'', Host := ''example.com'', Path := ''/ping''\<rparr>\<rparr>"
  have c: "example_Compile ''example'' = Some (\<lambda>u. has_infix u ''example'')"
    by (simp add: example_Compile_def literal_byte_def)
  have u: "example_URL_String (URL ?x) = ''http://example.com/ping''"
    by (simp add: example_URL_String_def URL_zero_def)
  have m: "has_infix (example_URL_String (URL ?x)) ''example''"
    unfolding u by simp
  have n: "\<not> has_infix (Path (URL ?x)) ''example''" by simp
  have g: "OnPath example_Compile example_URL_String force_PUT ''example''
       = Inr (Some (\<lambda>req s. if \<not> has_infix (example_URL_String (URL req)) ''example''
                              then Inr (req, s) else call force_PUT req s))"
    by (simp add: OnPath_def c)
  have r: "call force_PUT ?x empty_headers = Inr (?x\<lparr>Method := ''PUT''\<rparr>, empty_headers)"
    by (simp add: call_def force_PUT_def)
  have "Method (?x\<lparr>Method := ''PUT''\<rparr>) \<noteq> Method ?x" by simp
  then have d: "?x\<lparr>Method := ''PUT''\<rparr> \<noteq> ?x" by metis
  have a: "call (projr (OnPath example_Compile example_URL_String force_PUT ''example''))
             ?x empty_headers = Inr (?x\<lparr>Method := ''PUT''\<rparr>, empty_headers)"
    unfolding g using m r by (simp add: call_def)
  show ?thesis
    unfolding a using n d by (simp add: c g)
qed

text \<open>
  C6. For every filter \<open>f\<close> and request \<open>x\<close>, \<open>f.OnPath("")\<close> does exactly what \<open>f\<close> does on
  \<open>x\<close>: the empty pattern is replaced by \<open>.*\<close>, which the regexp library compiles to an
  expression that matches every string.
\<close>

theorem OnPath_empty_pattern:
  "regexp_Compile ''.*'' = Some re \<Longrightarrow> (\<forall>u. re u) \<Longrightarrow>
     \<exists>g. OnPath regexp_Compile URL_String f [] = Inr g \<and> (\<forall>x s. call g x s = call f x s)"
  by (simp add: OnPath_def call_def)

theorem OnPath_empty_pattern_witness:
  "example_Compile ''.*'' = Some (\<lambda>u. True)
   \<and> (\<exists>g. OnPath example_Compile example_URL_String force_PUT [] = Inr g
        \<and> (\<forall>x s. call g x s = call force_PUT x s))"
proof -
  have c: "example_Compile ''.*'' = Some (\<lambda>u. True)" by (simp add: example_Compile_def)
  have a: "\<forall>u::string. (\<lambda>u. True) u" by simp
  show ?thesis
    using c a
      OnPath_empty_pattern [where regexp_Compile = example_Compile and re = "\<lambda>u. True"
        and URL_String = example_URL_String and f = force_PUT]
    by simp
qed

text \<open>
  C9. A pattern that does not compile makes \<open>OnPath\<close> panic while the filter is being
  constructed: no filter is returned, so no request is ever processed by one. A filter that
  \<open>OnPath\<close> did return was built from a pattern that compiled, and applying it either
  returns the request as it is or does what the guarded filter \<open>f\<close> does: it has no failure
  of its own.
\<close>

theorem OnPath_fails_at_construction:
  "(regexp_Compile (if p = [] then ''.*'' else p) = None \<longrightarrow>
      OnPath regexp_Compile URL_String f p = Inl (RegexpCompileError (if p = [] then ''.*'' else p)))
   \<and> (OnPath regexp_Compile URL_String f p = Inr g \<longrightarrow>
        regexp_Compile (if p = [] then ''.*'' else p) \<noteq> None
        \<and> (\<forall>x s. call g x s = Inr (x, s) \<or> call g x s = call f x s))"
  by (auto simp add: OnPath_def call_def Let_def split: option.splits)

theorem OnPath_fails_at_construction_witness:
  "example_Compile ''('' = None
   \<and> OnPath example_Compile example_URL_String force_PUT ''('' = Inl (RegexpCompileError ''('')
   \<and> OnPath example_Compile example_URL_String force_PUT ''/order/''
       = Inr (Some (\<lambda>req s. if \<not> has_infix (example_URL_String (URL req)) ''/order/''
                              then Inr (req, s) else call force_PUT req s))
   \<and> example_Compile ''/order/'' \<noteq> None
   \<and> (\<forall>x s. call (Some (\<lambda>req s. if \<not> has_infix (example_URL_String (URL req)) ''/order/''
                              then Inr (req, s) else call force_PUT req s)) x s = Inr (x, s)
           \<or> call (Some (\<lambda>req s. if \<not> has_infix (example_URL_String (URL req)) ''/order/''
                              then Inr (req, s) else call force_PUT req s)) x s = call force_PUT x s)"
proof -
  have bad: "example_Compile ''('' = None"
    by (simp add: example_Compile_def literal_byte_def)
  have c: "example_Compile ''/order/'' = Some (\<lambda>u. has_infix u ''/order/'')"
    by (simp add: example_Compile_def literal_byte_def)
  have ok: "OnPath example_Compile example_URL_String force_PUT ''/order/''
       = Inr (Some (\<lambda>req s. if \<not> has_infix (example_URL_String (URL req)) ''/order/''
                              then Inr (req, s) else call force_PUT req s))"
    by (simp add: OnPath_def c)
  show ?thesis
    using bad ok
      OnPath_fails_at_construction [of example_Compile "''(''" example_URL_String force_PUT]
      OnPath_fails_at_construction [of example_Compile "''/order/''" example_URL_String force_PUT,
        THEN conjunct2, rule_format, OF ok]
    by simp
qed

section \<open>Chains\<close>

text \<open>
  C4. Applying an empty filter chain to a request \<open>x\<close> returns \<open>x\<close> unchanged and leaves the
  headers as they are; the nil chain \<open>RequestFilters(nil)\<close> is one such chain.
\<close>

theorem combined_empty_chain:
  "len r = 0 \<Longrightarrow> call (combined st r) x s = Inr (x, s)"
  by (simp add: combined_def call_def slice_elems_def range_loop.simps [of "[]"])

theorem combined_empty_chain_witness:
  "len nil_RequestFilters = 0
   \<and> call (combined [] nil_RequestFilters) (Request_zero\<lparr>Method := ''GET''\<rparr>) empty_headers
       = Inr (Request_zero\<lparr>Method := ''GET''\<rparr>, empty_headers)"
proof -
  have h: "len nil_RequestFilters = 0" by (simp add: nil_RequestFilters_def)
  show ?thesis
    using h combined_empty_chain [OF h, of "[]" "Request_zero\<lparr>Method := ''GET''\<rparr>" empty_headers]
    by simp
qed

text \<open>
  C5. For every chain with the elements \<open>f1, ..., fn\<close> and every request \<open>x\<close>, the loop of
  \<open>combined\<close> computes what folding \<open>x\<close> through the filters in sequence order computes:
  \<open>f1\<close> sees \<open>x\<close>, each later filter sees the request and the headers the one before it left,
  and a panic of a filter is the result of the chain. For filters that only compute a new
  request the result is \<open>fn(...(f2(f1(x))))\<close>.
\<close>

theorem combined_folds_in_order:
  "call (combined st r) x s = apply_in_order (slice_elems st r) x s
   \<and> (slice_elems st r = map pure_filter gs \<longrightarrow>
        call (combined st r) x s = Inr (fold (\<lambda>g y. g y) gs x, s))"
  by (simp add: combined_def call_def range_loop_drop apply_in_order_pure)

theorem combined_folds_in_order_witness:
  "slice_elems [[pure_filter (\<lambda>q. q\<lparr>Method := ''POST''\<rparr>), pure_filter (\<lambda>q. q\<lparr>Body := Method q\<rparr>)]]
       \<lparr>arr = 0, off = 0, len = 2, cap = 2\<rparr>
     = map pure_filter [\<lambda>q. q\<lparr>Method := ''POST''\<rparr>, \<lambda>q. q\<lparr>Body := Method q\<rparr>]
   \<and> call (combined
         [[pure_filter (\<lambda>q. q\<lparr>Method := ''POST''\<rparr>), pure_filter (\<lambda>q. q\<lparr>Body := Method q\<rparr>)]]
         \<lparr>arr = 0, off = 0, len = 2, cap = 2\<rparr>) Request_zero empty_headers
     = Inr (Request_zero\<lparr>Method := ''POST'', Body := ''POST''\<rparr>, empty_headers)"
proof -
  have h: "slice_elems
       [[pure_filter (\<lambda>q. q\<lparr>Method := ''POST''\<rparr>), pure_filter (\<lambda>q. q\<lparr>Body := Method q\<rparr>)]]
       \<lparr>arr = 0, off = 0, len = 2, cap = 2\<rparr>
     = map pure_filter [\<lambda>q. q\<lparr>Method := ''POST''\<rparr>, \<lambda>q. q\<lparr>Body := Method q\<rparr>]"
    by (simp add: slice_elems_def)
  show ?thesis
    using h combined_folds_in_order
      [where st = "[[pure_filter (\<lambda>q. q\<lparr>Method := ''POST''\<rparr>), pure_filter (\<lambda>q. q\<lparr>Body := Method q\<rparr>)]]"
         and r = "\<lparr>arr = 0, off = 0, len = 2, cap = 2\<rparr>"
         and gs = "[\<lambda>q. q\<lparr>Method := ''POST''\<rparr>, \<lambda>q. q\<lparr>Body := Method q\<rparr>]"
         and x = Request_zero and s = empty_headers, THEN conjunct2, rule_format, OF h]
    by simp
qed

text \<open>
  C7. For every chain \<open>r\<close> and every list of filters \<open>fs\<close>, \<open>r.Append(fs...)\<close> returns a chain
  whose elements are the elements of \<open>r\<close> followed by \<open>fs\<close> in order, and after the call the
  chain value \<open>r\<close> still has the elements it had before. (Both chains are well-formed slices
  of the filter store the call leaves.)
\<close>

theorem Append_elems:
  "slice_wf st r \<Longrightarrow> Append grow st r fs = (r', st') \<Longrightarrow>
     slice_elems st' r' = slice_elems st r @ fs
     \<and> slice_elems st' r = slice_elems st r
     \<and> slice_wf st' r' \<and> slice_wf st' r"
  unfolding Append_def by (rule append_slice_ok)

theorem Append_elems_witness:
  "slice_wf [[force_PUT, None]] \<lparr>arr = 0, off = 0, len = 1, cap = 2\<rparr>
   \<and> Append no_spare [[force_PUT, None]] \<lparr>arr = 0, off = 0, len = 1, cap = 2\<rparr>
        [RequestDeleteHeaderKeys [''Date'']]
     = (\<lparr>arr = 0, off = 0, len = 2, cap = 2\<rparr>, [[force_PUT, RequestDeleteHeaderKeys [''Date'']]])
   \<and> slice_elems [[force_PUT, RequestDeleteHeaderKeys [''Date'']]] \<lparr>arr = 0, off = 0, len = 2, cap = 2\<rparr>
     = slice_elems [[force_PUT, None]] \<lparr>arr = 0, off = 0, len = 1, cap = 2\<rparr>
         @ [RequestDeleteHeaderKeys [''Date'']]
   \<and> slice_elems [[force_PUT, RequestDeleteHeaderKeys [''Date'']]] \<lparr>arr = 0, off = 0, len = 1, cap = 2\<rparr>
     = slice_elems [[force_PUT, None]] \<lparr>arr = 0, off = 0, len = 1, cap = 2\<rparr>"
proof -
  have w: "slice_wf [[force_PUT, None]] \<lparr>arr = 0, off = 0, len = 1, cap = 2\<rparr>"
    by (simp add: slice_wf_def)
  have a: "Append no_spare [[force_PUT, None]] \<lparr>arr = 0, off = 0, len = 1, cap = 2\<rparr>
        [RequestDeleteHeaderKeys [''Date'']]
     = (\<lparr>arr = 0, off = 0, len = 2, cap = 2\<rparr>, [[force_PUT, RequestDeleteHeaderKeys [''Date'']]])"
    by (simp add: Append_def append_slice_def write_at_def)
  show ?thesis
    using w a Append_elems [OF w a] by simp
qed

text \<open>
  C8. For every chain \<open>r\<close> and every list of filters \<open>fs\<close>, \<open>r.Prepend(fs...)\<close> returns a new
  chain, in an array of its own, whose elements are \<open>fs\<close> followed by the elements of \<open>r\<close> in
  their order; every array that existed before the call, the one behind \<open>r\<close> among them, is
  as it was, and so are the elements of \<open>r\<close>.
\<close>

theorem Prepend_elems:
  "slice_wf st r \<Longrightarrow> Prepend grow st r fs = (r', st') \<Longrightarrow>
     slice_elems st' r' = fs @ slice_elems st r
     \<and> slice_elems st' r = slice_elems st r
     \<and> arr r' = length st \<and> take (length st) st' = st
     \<and> slice_wf st' r' \<and> slice_wf st' r"
proof -
  assume wf: "slice_wf st r" and p: "Prepend grow st r fs = (r', st')"
  from p have r': "r' = \<lparr>arr = length st, off = 0, len = length fs + len r, cap = length fs + len r\<rparr>"
    and st': "st' = st @ [fs @ slice_elems st r]"
    unfolding Prepend_result [OF wf] by simp_all
  have le: "length (slice_elems st r) = len r" by (rule length_slice_elems [OF wf])
  have "slice_elems st' r' = take (length fs + len r) (fs @ slice_elems st r)"
    by (simp add: r' st' slice_elems_def)
  then have 1: "slice_elems st' r' = fs @ slice_elems st r" using le by simp
  have 2: "slice_elems st' r = slice_elems st r"
    unfolding st' by (rule slice_elems_extend [OF wf])
  have 3: "slice_wf st' r'" by (simp add: r' st' slice_wf_def le)
  have 4: "slice_wf st' r" unfolding st' by (rule slice_wf_extend [OF wf])
  from 1 2 3 4 show ?thesis by (simp add: r' st')
qed

theorem Prepend_elems_witness:
  "slice_wf [[force_PUT, None]] \<lparr>arr = 0, off = 0, len = 1, cap = 2\<rparr>
   \<and> Prepend no_spare [[force_PUT, None]] \<lparr>arr = 0, off = 0, len = 1, cap = 2\<rparr>
        [RequestDeleteHeaderKeys [''Date'']]
     = (\<lparr>arr = 1, off = 0, len = 2, cap = 2\<rparr>,
        [[force_PUT, None], [RequestDeleteHeaderKeys [''Date''], force_PUT]])
   \<and> slice_elems [[force_PUT, None], [RequestDeleteHeaderKeys [''Date''], force_PUT]]
        \<lparr>arr = 1, off = 0, len = 2, cap = 2\<rparr>
     = [RequestDeleteHeaderKeys [''Date''], force_PUT]
   \<and> slice_elems [[force_PUT, None], [RequestDeleteHeaderKeys [''Date''], force_PUT]]
        \<lparr>arr = 0, off = 0, len = 1, cap = 2\<rparr>
     = [force_PUT]"
proof -
  have w: "slice_wf [[force_PUT, None]] \<lparr>arr = 0, off = 0, len = 1, cap = 2\<rparr>"
    by (simp add: slice_wf_def)
  have e: "slice_elems [[force_PUT, None]] \<lparr>arr = 0, off = 0, len = 1, cap = 2\<rparr> = [force_PUT]"
    by (simp add: slice_elems_def)
  have a: "Prepend no_spare [[force_PUT, None]] \<lparr>arr = 0, off = 0, len = 1, cap = 2\<rparr>
        [RequestDeleteHeaderKeys [''Date'']]
     = (\<lparr>arr = 1, off = 0, len = 2, cap = 2\<rparr>,
        [[force_PUT, None], [RequestDeleteHeaderKeys [''Date''], force_PUT]])"
    by (simp add: Prepend_def make_slice_def append_slice_def write_at_def slice_elems_def)
  show ?thesis
    using w a e Prepend_elems [OF w a] by simp
qed

section \<open>The header filters\<close>




text \<open>The write behind a value slice is seen by every slice that covers the cell. The
  array at 0 holds \<open>a, b\<close>; the header at address 0 has \<open>K\<close> bound to its first string only,
  the header at address 1 has \<open>K\<close> bound to both. Adding \<open>z\<close> for \<open>K\<close> through a request with
  the first header turns the values that the second header reads for \<open>K\<close> into \<open>a, z\<close>.\<close>

lemma RequestAddHeaderValue_shared_array_example:
  "Header_Values
     (snd (projr (call (RequestAddHeaderValue no_spare ''K'' ''z'') (Request_zero\<lparr>Header := Some 0\<rparr>)
        \<lparr>maps = (\<lambda>a. Map.empty)
                  (0 := [''K'' \<mapsto> \<lparr>sarr = 0, soff = 0, slen = 1, scap = 2\<rparr>],
                   1 := [''K'' \<mapsto> \<lparr>sarr = 0, soff = 0, slen = 2, scap = 2\<rparr>]),
         strs = [[''a'', ''b'']]\<rparr>))) 1 ''K''
   = [''a'', ''z'']"
proof -
  have k: "CanonicalMIMEHeaderKey ''K'' = ''K''" by code_simp
  show ?thesis
    by (simp add: call_def RequestAddHeaderValue_def Header_Add_def append_string_def
          map_index_def Header_Values_def Header_index_def strings_of_def Let_def k)
qed

text \<open>
  C10, as the code has it. For every request \<open>x\<close> with a header map, in particular one that
  already holds values under the canonical form of the key \<open>k\<close>
  (\<open>CanonicalMIMEHeaderKey(k)\<close>, the key under which \<open>Header.Add\<close> stores and \<open>Header.Values\<close>
  reads), \<open>RequestAddHeaderValue(k, v)\<close> returns without panic, and in the header of the
  returned request the values under that canonical key are the values that were there, in
  their order, followed by \<open>v\<close>: none of them is removed or replaced.
\<close>

theorem RequestAddHeaderValue_appends:
  "Header x = Some a \<Longrightarrow>
   strings_wf (strs s) (map_index (maps s a) (CanonicalMIMEHeaderKey k)) \<Longrightarrow>
     \<exists>s'. call (RequestAddHeaderValue grow k v) x s = Inr (x, s')
       \<and> Header_Values s' a k = Header_Values s a k @ [v]"
proof -
  assume h: "Header x = Some a"
    and wf: "strings_wf (strs s) (map_index (maps s a) (CanonicalMIMEHeaderKey k))"
  let ?w = "map_index (maps s a) (CanonicalMIMEHeaderKey k)"
  obtain w' ss' where ap: "append_string grow (strs s) ?w v = (w', ss')"
    by (cases "append_string grow (strs s) ?w v")
  from append_string_ok [OF wf ap] have e: "strings_of ss' w' = strings_of (strs s) ?w @ [v]"
    by simp
  have c: "call (RequestAddHeaderValue grow k v) x s
        = Inr (x, s\<lparr>maps := (maps s)(a := (maps s a)(CanonicalMIMEHeaderKey k \<mapsto> w')), strs := ss'\<rparr>)"
    using h ap by (simp add: call_def RequestAddHeaderValue_def Header_Add_def Let_def)
  show ?thesis
    unfolding c using e by (simp add: Header_Values_def Header_index_def map_index_def)
qed

theorem RequestAddHeaderValue_appends_witness:
  "Header (Request_zero\<lparr>Header := Some 0\<rparr>) = Some 0
   \<and> strings_wf [[''a'']] \<lparr>sarr = 0, soff = 0, slen = 1, scap = 1\<rparr>
   \<and> Header_Values
        \<lparr>maps = (\<lambda>a. Map.empty)(0 := [''Accept'' \<mapsto> \<lparr>sarr = 0, soff = 0, slen = 1, scap = 1\<rparr>]),
         strs = [[''a'']]\<rparr> 0 ''accept'' = [''a'']
   \<and> (\<exists>s'. call (RequestAddHeaderValue no_spare ''accept'' ''b'') (Request_zero\<lparr>Header := Some 0\<rparr>)
              \<lparr>maps = (\<lambda>a. Map.empty)(0 := [''Accept'' \<mapsto> \<lparr>sarr = 0, soff = 0, slen = 1, scap = 1\<rparr>]),
               strs = [[''a'']]\<rparr>
            = Inr (Request_zero\<lparr>Header := Some 0\<rparr>, s')
         \<and> Header_Values s' 0 ''accept'' = [''a'', ''b''])"
proof -
  let ?x = "Request_zero\<lparr>Header := Some 0\<rparr>"
  let ?w = "\<lparr>sarr = 0, soff = 0, slen = 1, scap = 1\<rparr>"
  let ?s = "\<lparr>maps = (\<lambda>a. Map.empty)(0 := [''Accept'' \<mapsto> ?w]), strs = [[''a'']]\<rparr>"
  have h: "Header ?x = Some 0" by simp
  have k: "CanonicalMIMEHeaderKey ''accept'' = ''Accept''" by code_simp
  have i: "map_index (maps ?s 0) (CanonicalMIMEHeaderKey ''accept'') = ?w"
    by (simp add: map_index_def k)
  have wf': "strings_wf [[''a'']] ?w" by (simp add: strings_wf_def)
  have wf: "strings_wf (strs ?s) (map_index (maps ?s 0) (CanonicalMIMEHeaderKey ''accept''))"
    unfolding i using wf' by simp
  have v: "Header_Values ?s 0 ''accept'' = [''a'']"
    by (simp add: Header_Values_def Header_index_def map_index_def strings_of_def k)
  from RequestAddHeaderValue_appends [OF h wf, of no_spare "''b''"] obtain s' where
    c: "call (RequestAddHeaderValue no_spare ''accept'' ''b'') ?x ?s = Inr (?x, s')" and
    a: "Header_Values s' 0 ''accept'' = Header_Values ?s 0 ''accept'' @ [''b'']"
    by blast
  from a v have "Header_Values s' 0 ''accept'' = [''a'', ''b'']" by simp
  with h wf' v c show ?thesis by blast
qed

text \<open>
  C10 as it is worded, for the key as it is spelt, fails. The header holds the value \<open>a\<close>
  for the key \<open>accept\<close>, stored under that lower-case spelling. \<open>RequestAddHeaderValue("accept", "b")\<close>
  returns without panic, but \<open>b\<close> is not appended after \<open>a\<close>: the entry \<open>accept\<close> still reads
  \<open>a\<close> alone, and \<open>b\<close> starts a new entry under \<open>Accept\<close>, which is all that \<open>Header.Values\<close>
  returns for the key.
\<close>

theorem RequestAddHeaderValue_raw_key_counterexample:
  "Header_index
      \<lparr>maps = (\<lambda>a. Map.empty)(0 := [''accept'' \<mapsto> \<lparr>sarr = 0, soff = 0, slen = 1, scap = 1\<rparr>]),
       strs = [[''a'']]\<rparr> 0 ''accept'' = [''a'']
   \<and> \<not> isl (call (RequestAddHeaderValue no_spare ''accept'' ''b'') (Request_zero\<lparr>Header := Some 0\<rparr>)
        \<lparr>maps = (\<lambda>a. Map.empty)(0 := [''accept'' \<mapsto> \<lparr>sarr = 0, soff = 0, slen = 1, scap = 1\<rparr>]),
         strs = [[''a'']]\<rparr>)
   \<and> Header_index
        (snd (projr (call (RequestAddHeaderValue no_spare ''accept'' ''b'') (Request_zero\<lparr>Header := Some 0\<rparr>)
          \<lparr>maps = (\<lambda>a. Map.empty)(0 := [''accept'' \<mapsto> \<lparr>sarr = 0, soff = 0, slen = 1, scap = 1\<rparr>]),
           strs = [[''a'']]\<rparr>))) 0 ''accept'' = [''a'']
   \<and> Header_Values
        (snd (projr (call (RequestAddHeaderValue no_spare ''accept'' ''b'') (Request_zero\<lparr>Header := Some 0\<rparr>)
          \<lparr>maps = (\<lambda>a. Map.empty)(0 := [''accept'' \<mapsto> \<lparr>sarr = 0, soff = 0, slen = 1, scap = 1\<rparr>]),
           strs = [[''a'']]\<rparr>))) 0 ''accept'' = [''b'']"
proof -
  have k: "CanonicalMIMEHeaderKey ''accept'' = ''Accept''" by code_simp
  show ?thesis
    by (simp add: call_def RequestAddHeaderValue_def Header_Add_def append_string_def
          map_index_def nil_StringSlice_def Header_Values_def Header_index_def strings_of_def
          no_spare_def Let_def k)
qed

end
